theory Spec2Isabelle
  imports Main "HOL-Library.Char_ord" "HOL-Library.List_Lexorder"
begin

section \<open>The chat store of BizAssist (frontend/src/store/chatStore.ts)\<close>

text \<open>
  The store is a zustand store: one record of state, changed only through \<open>set\<close>.
  JavaScript runs it on a single thread, so everything between two \<open>await\<close>s is one
  atomic step on that record. Each asynchronous action of the store is therefore modelled
  as the sequence of its steps, a function on the state for each; the data that arrives at
  an \<open>await\<close> (a chunk of the response body, a parsed HTTP response, the clock) is an
  argument of the step that follows it.

  Strings are lists of characters. A character stands for one UTF-16 code unit of the
  JavaScript string, in the range 0 to 255; the chunks of a response body are the texts
  that \<open>TextDecoder.decode\<close> returns.
\<close>

subsection \<open>JavaScript values\<close>

text \<open>
  What \<open>JSON.parse\<close> returns. A number is kept as the text that \<open>String\<close> gives
  for it (\<open>0\<close> and \<open>-0\<close> both give \<open>0\<close>), which is all this program asks of a number:
  its truthiness, its text and \<open>===\<close>. An object is the list of its own properties, each
  key once. A property that is absent reads as \<open>undefined\<close>, here \<open>None\<close>.
\<close>

datatype json =
    JNull
  | JBool bool
  | JNum string
  | JStr string
  | JArr "json list"
  | JObj "(string \<times> json) list"

text \<open>
  \<open>JSON.parse\<close> is a builtin of the platform, so the store is modelled for any function
  in its place: \<open>None\<close> is a SyntaxError.
\<close>

type_synonym parser = "string \<Rightarrow> json option"

text \<open>\<open>v.k\<close> for a value \<open>v\<close> that is not \<open>null\<close>: only objects have the properties read here.\<close>

fun field :: "string \<Rightarrow> json \<Rightarrow> json option" where
  "field k (JObj kvs) = map_of kvs k"
| "field k _ = None"

text \<open>\<open>a ?? b\<close>: the right operand when the left one is \<open>undefined\<close> or \<open>null\<close>.\<close>

fun nullish :: "json option \<Rightarrow> json option \<Rightarrow> json option" where
  "nullish None b = b"
| "nullish (Some JNull) b = b"
| "nullish a b = a"

text \<open>The condition of \<open>if (v)\<close>, \<open>v ? a : b\<close> and \<open>v || w\<close>.\<close>

fun truthy :: "json option \<Rightarrow> bool" where
  "truthy None = False"
| "truthy (Some JNull) = False"
| "truthy (Some (JBool b)) = b"
| "truthy (Some (JNum n)) = (n \<noteq> ''0'')"
| "truthy (Some (JStr s)) = (s \<noteq> [])"
| "truthy (Some (JArr xs)) = True"
| "truthy (Some (JObj kvs)) = True"

text \<open>
  \<open>a === b\<close>. Arrays and objects are compared by identity, and the two operands of every
  comparison in this store come from two different calls of \<open>JSON.parse\<close>, so they are
  never the same object.
\<close>

fun strict_eq :: "json \<Rightarrow> json \<Rightarrow> bool" where
  "strict_eq JNull JNull = True"
| "strict_eq (JBool a) (JBool b) = (a = b)"
| "strict_eq (JNum a) (JNum b) = (a = b)"
| "strict_eq (JStr a) (JStr b) = (a = b)"
| "strict_eq _ _ = False"

fun join :: "string list \<Rightarrow> string" where
  "join [] = []"
| "join [s] = s"
| "join (s # t # ss) = s @ '','' @ join (t # ss)"

fun those_strings :: "string option list \<Rightarrow> string list option" where
  "those_strings [] = Some []"
| "those_strings (None # xs) = None"
| "those_strings (Some s # xs) = map_option ((#) s) (those_strings xs)"

text \<open>
  \<open>String(v)\<close>, and the text that \<open>s + v\<close> appends to a string \<open>s\<close>: \<open>None\<close> when the
  conversion throws a TypeError. A parsed object has no callable property of its own, so
  an own property \<open>toString\<close> hides \<open>Object.prototype.toString\<close> and leaves no way to a
  primitive value. An array is joined with commas, \<open>null\<close> elements giving the empty text.
\<close>

fun to_string :: "json \<Rightarrow> string option" where
  "to_string JNull = Some ''null''"
| "to_string (JBool b) = Some (if b then ''true'' else ''false'')"
| "to_string (JNum n) = Some n"
| "to_string (JStr s) = Some s"
| "to_string (JArr xs) =
     map_option join
       (those_strings (map (\<lambda>x. if x = JNull then Some [] else to_string x) xs))"
| "to_string (JObj kvs) =
     (if ''toString'' \<in> fst ` set kvs then None else Some ''[object Object]'')"

subsection \<open>The state of the store (types/index.ts, interface ChatState)\<close>

datatype ToolStatus = started | completed | failed

datatype Role = user | assistant

text \<open>
  An entry of \<open>activeTools\<close> keeps the \<open>name\<close> of its event as it was parsed: the type
  says \<open>string\<close>, but nothing converts it.
\<close>

record ToolCall =
  name :: json
  status :: ToolStatus
  citations :: "string list option"

record Attachment =
  att_id :: string
  filename :: string
  content_type :: string
  att_size :: nat
  url :: string
  local_url :: "string option"

record Message =
  msg_id :: string
  role :: Role
  content :: string
  tool_calls :: "ToolCall list option"
  attachments :: "Attachment list option"
  created_at :: string

record Chat =
  chat_id :: string
  title :: json
  chat_created_at :: string
  chat_updated_at :: string

record ChatState =
  chats :: "Chat list"
  activeChatId :: "string option"
  messages :: "Message list"
  isLoading :: bool
  streamingMessage :: string
  activeTools :: "ToolCall list"
  hasMoreMessages :: bool
  isLoadingMore :: bool

definition initial_state :: ChatState where
  "initial_state =
     \<lparr>chats = [], activeChatId = None, messages = [], isLoading = False,
      streamingMessage = [], activeTools = [], hasMoreMessages = True,
      isLoadingMore = False\<rparr>"

text \<open>
  The local variables of \<open>sendMessage\<close> that live across the chunks of one stream.
  \<open>pendingToolMeta\<close> is an object used as a table from names to \<open>{citations}\<close>; the
  last entry written for a key is the one read. (A key that names a property every
  object inherits reads as a value without citations as long as it was not written, as
  an absent key does; what a write to the key \<open>__proto__\<close> does to the reads of other keys
  is not modelled.)
\<close>

record stream_vars =
  buffer :: string
  hasReceivedFirstToken :: bool
  pendingToolMeta :: "(string \<times> string list option) list"

definition initial_vars :: stream_vars where
  "initial_vars = \<lparr>buffer = [], hasReceivedFirstToken = False, pendingToolMeta = []\<rparr>"

subsection \<open>One line of the stream (sendMessage, the body of the \<open>for\<close> loop)\<close>

definition white_space :: "char \<Rightarrow> bool" where
  "white_space c \<longleftrightarrow>
     c \<in> set [CHR 0x09, CHR 0x0A, CHR 0x0B, CHR 0x0C, CHR 0x0D, CHR 0x20, CHR 0xA0]"

definition trim :: "string \<Rightarrow> string" where
  "trim s = rev (dropWhile white_space (rev (dropWhile white_space s)))"

definition startsWith :: "string \<Rightarrow> string \<Rightarrow> bool" where
  "startsWith s p \<longleftrightarrow> take (length p) s = p"

text \<open>\<open>line.replace(/^data:\s?/, '')\<close> on a line that starts with \<open>data:\<close>.\<close>

definition strip_data :: "string \<Rightarrow> string" where
  "strip_data line =
     (case drop 5 line of
        [] \<Rightarrow> []
      | c # cs \<Rightarrow> if white_space c then cs else c # cs)"

text \<open>
  The payload \<open>data\<close> of a raw line: \<open>None\<close> where the loop says \<open>continue\<close> before it
  looks at the payload (the line does not start with \<open>data:\<close>, or nothing follows it).
\<close>

definition line_data :: "string \<Rightarrow> string option" where
  "line_data rawLine =
     (let line = trim rawLine in
      if \<not> startsWith line ''data:'' then None
      else let data = strip_data line in
        if data = [] then None else Some data)"

datatype flow = Next | Break

text \<open>
  The result of the \<open>try\<close> block: it ran to its end (and the loop goes on or is left), or
  it threw, with the state as it was at the throw.
\<close>

datatype 'a tried = Ran 'a flow | Threw 'a

type_synonym turn = "ChatState \<times> stream_vars"

definition first_token :: "turn \<Rightarrow> turn" where
  "first_token t =
     (case t of (s, v) \<Rightarrow>
        if \<not> hasReceivedFirstToken v
        then (s\<lparr>isLoading := False\<rparr>, v\<lparr>hasReceivedFirstToken := True\<rparr>)
        else (s, v))"

definition on_token :: "json \<Rightarrow> turn \<Rightarrow> turn tried" where
  "on_token parsed t =
     (case first_token t of (s, v) \<Rightarrow>
        (case to_string (the (nullish (field ''content'' parsed) (Some (JStr [])))) of
           None \<Rightarrow> Threw (s, v)
         | Some c \<Rightarrow> Ran (s\<lparr>streamingMessage := streamingMessage s @ c\<rparr>, v) Next))"

definition on_tool_start :: "json \<Rightarrow> turn \<Rightarrow> turn tried" where
  "on_tool_start parsed t =
     (case t of (s, v) \<Rightarrow>
        let toolName = nullish (field ''name'' parsed) (field ''tool'' parsed) in
        if truthy toolName then
          (case to_string (the toolName) of
             None \<Rightarrow> Threw (s, v)
           | Some key \<Rightarrow>
               let meta = (case map_of (pendingToolMeta v) key of None \<Rightarrow> None | Some c \<Rightarrow> c)
               in Ran (s\<lparr>activeTools := activeTools s @
                          [\<lparr>name = the toolName, status = started, citations = meta\<rparr>]\<rparr>, v)
                      Next)
        else Ran (s, v) Next)"

definition on_tool_end :: "json \<Rightarrow> turn \<Rightarrow> turn tried" where
  "on_tool_end parsed t =
     (case t of (s, v) \<Rightarrow>
        let toolName = nullish (field ''name'' parsed) (field ''tool'' parsed) in
        if truthy toolName then
          Ran (s\<lparr>activeTools :=
                   map (\<lambda>t. if strict_eq (name t) (the toolName)
                             then t\<lparr>status := completed\<rparr> else t)
                       (activeTools s)\<rparr>, v) Next
        else Ran (s, v) Next)"

text \<open>\<open>Array.isArray(c) ? c.map(String) : undefined\<close>; \<open>None\<close> when \<open>String\<close> throws.\<close>

fun citation_list :: "json option \<Rightarrow> string list option option" where
  "citation_list (Some (JArr xs)) = map_option Some (those_strings (map to_string xs))"
| "citation_list _ = Some None"

definition on_source :: "json \<Rightarrow> turn \<Rightarrow> turn tried" where
  "on_source parsed t =
     (case t of (s, v) \<Rightarrow>
        let toolName =
              the (nullish (nullish (field ''name'' parsed) (field ''tool'' parsed))
                           (Some (JStr ''Source'')))
        in (case to_string toolName of
              None \<Rightarrow> Threw (s, v)
            | Some key \<Rightarrow>
                (case citation_list (field ''citations'' parsed) of
                   None \<Rightarrow> Threw (s, v)
                 | Some cs \<Rightarrow>
                     Ran (s\<lparr>activeTools :=
                              map (\<lambda>t. if strict_eq (name t) toolName
                                        then t\<lparr>citations := cs\<rparr> else t)
                                  (activeTools s)\<rparr>,
                          v\<lparr>pendingToolMeta := (key, cs) # pendingToolMeta v\<rparr>) Next)))"

definition on_title_update :: "json \<Rightarrow> turn \<Rightarrow> turn tried" where
  "on_title_update parsed t =
     (case t of (s, v) \<Rightarrow>
        let chatId = field ''chat_id'' parsed; newTitle = field ''title'' parsed in
        if truthy chatId \<and> truthy newTitle then
          Ran (s\<lparr>chats :=
                   map (\<lambda>c. if strict_eq (JStr (chat_id c)) (the chatId)
                             then c\<lparr>title := the newTitle\<rparr> else c)
                       (chats s)\<rparr>, v) Next
        else Ran (s, v) Next)"

definition on_error :: "json \<Rightarrow> turn \<Rightarrow> turn tried" where
  "on_error parsed t =
     (case t of (s, v) \<Rightarrow>
        let s1 = (if \<not> hasReceivedFirstToken v then s\<lparr>isLoading := False\<rparr> else s) in
        (case (if truthy (field ''content'' parsed)
               then to_string (the (field ''content'' parsed))
               else Some ''Something went wrong.'') of
           None \<Rightarrow> Threw (s1, v)
         | Some errorText \<Rightarrow>
             Ran (s1\<lparr>streamingMessage :=
                       (if streamingMessage s1 \<noteq> [] then streamingMessage s1 else errorText)\<rparr>,
                  v\<lparr>buffer := []\<rparr>) Break))"

text \<open>The \<open>try\<close> block. Reading \<open>parsed.type\<close> of \<open>null\<close> throws a TypeError.\<close>

definition try_block :: "parser \<Rightarrow> string \<Rightarrow> turn \<Rightarrow> turn tried" where
  "try_block parse data t =
     (case parse data of
        None \<Rightarrow> Threw t
      | Some JNull \<Rightarrow> Threw t
      | Some parsed \<Rightarrow>
          let ty = field ''type'' parsed in
          if ty = Some (JStr ''token'') then on_token parsed t
          else if ty = Some (JStr ''tool_start'') then on_tool_start parsed t
          else if ty = Some (JStr ''tool_end'') then on_tool_end parsed t
          else if ty = Some (JStr ''source'') then on_source parsed t
          else if ty = Some (JStr ''title_update'') then on_title_update parsed t
          else if ty = Some (JStr ''error'') then on_error parsed t
          else if ty = Some (JStr ''done'') then
            (case t of (s, v) \<Rightarrow> Ran (s, v\<lparr>buffer := []\<rparr>) Break)
          else Ran t Next)"

text \<open>The \<open>catch\<close> block: the payload becomes literal content.\<close>

definition catch_block :: "string \<Rightarrow> turn \<Rightarrow> turn" where
  "catch_block data t =
     (case first_token t of (s, v) \<Rightarrow>
        (s\<lparr>streamingMessage := streamingMessage s @ data\<rparr>, v))"

definition process_line :: "parser \<Rightarrow> turn \<Rightarrow> string \<Rightarrow> turn \<times> flow" where
  "process_line parse t rawLine =
     (case line_data rawLine of
        None \<Rightarrow> (t, Next)
      | Some data \<Rightarrow>
          if data = ''[DONE]'' then
            (case t of (s, v) \<Rightarrow> ((s, v\<lparr>buffer := []\<rparr>), Break))
          else
            (case try_block parse data t of
               Ran t' f \<Rightarrow> (t', f)
             | Threw t' \<Rightarrow> (catch_block data t', Next)))"

subsection \<open>The stream (sendMessage, the \<open>while\<close> loop and what follows it)\<close>

text \<open>\<open>buffer.split('\n')\<close>: the pieces between the newlines, one more than there are newlines.\<close>

fun split_newline :: "string \<Rightarrow> string list" where
  "split_newline [] = [[]]"
| "split_newline (c # cs) =
     (if c = CHR 0x0A then [] # split_newline cs
      else (case split_newline cs of
              [] \<Rightarrow> [[c]]
            | l # ls \<Rightarrow> (c # l) # ls))"

text \<open>The \<open>for\<close> loop over the complete lines of a chunk; \<open>break\<close> leaves this loop only.\<close>

fun for_lines :: "parser \<Rightarrow> turn \<Rightarrow> string list \<Rightarrow> turn" where
  "for_lines parse t [] = t"
| "for_lines parse t (rawLine # lines) =
     (case process_line parse t rawLine of
        (t', Break) \<Rightarrow> t'
      | (t', Next) \<Rightarrow> for_lines parse t' lines)"

text \<open>
  One iteration of the \<open>while\<close> loop, for a chunk that \<open>reader.read()\<close> delivered: the
  chunk is added to the buffer, the last piece of the split goes back to the buffer
  (\<open>lines.pop() ?? ''\<close>), the other pieces are processed.
\<close>

definition on_chunk :: "parser \<Rightarrow> turn \<Rightarrow> string \<Rightarrow> turn" where
  "on_chunk parse t chunk =
     (case t of (s, v) \<Rightarrow>
        let lines = split_newline (buffer v @ chunk) in
        for_lines parse (s, v\<lparr>buffer := (if lines = [] then [] else last lines)\<rparr>)
          (butlast lines))"

text \<open>
  The \<open>while\<close> loop on a stream that delivers the given chunks and then reports \<open>done\<close>.
  Nothing but \<open>done\<close> from the reader ends the loop.
\<close>

fun read_chunks :: "parser \<Rightarrow> turn \<Rightarrow> string list \<Rightarrow> turn" where
  "read_chunks parse t [] = t"
| "read_chunks parse t (chunk # chunks) = read_chunks parse (on_chunk parse t chunk) chunks"

text \<open>
  After the loop: the assistant message is built from the streamed text and the tools and
  appended. \<open>aiId\<close> is \<open>(Date.now() + 1).toString()\<close> and \<open>aiTime\<close> is
  \<open>new Date().toISOString()\<close> at that moment.
\<close>

definition stream_closed :: "string \<Rightarrow> string \<Rightarrow> ChatState \<Rightarrow> ChatState" where
  "stream_closed aiId aiTime s =
     (let s1 = s\<lparr>isLoading := False\<rparr>;
          aiMsg = \<lparr>msg_id = aiId, role = assistant, content = streamingMessage s1,
                   tool_calls = Some (activeTools s1), attachments = None,
                   created_at = aiTime\<rparr>
      in s1\<lparr>messages := messages s1 @ [aiMsg], streamingMessage := [], activeTools := []\<rparr>)"

text \<open>
  The outer \<open>catch\<close> of \<open>sendMessage\<close>, reached when the request or a read of the body
  is rejected with an error of the given message.
\<close>

definition send_failed :: "string \<Rightarrow> ChatState \<Rightarrow> ChatState" where
  "send_failed msg s =
     s\<lparr>isLoading := False,
       streamingMessage := (if streamingMessage s \<noteq> [] then streamingMessage s else msg)\<rparr>"

text \<open>
  The two other ways out of \<open>sendMessage\<close> before the stream is read: the response is
  not \<open>ok\<close> (\<open>errText\<close> is what could be read of its body; the error thrown is caught
  by the outer \<open>catch\<close> at once), or it has no body to read.
\<close>

definition response_not_ok :: "string \<Rightarrow> ChatState \<Rightarrow> ChatState" where
  "response_not_ok errText s =
     send_failed (if errText \<noteq> [] then errText else ''Stream failed'')
       (s\<lparr>isLoading := False,
          streamingMessage := (if errText \<noteq> [] then errText else ''Request failed.'')\<rparr>)"

definition no_body :: "ChatState \<Rightarrow> ChatState" where
  "no_body s = s\<lparr>isLoading := False\<rparr>"

text \<open>
  The start of \<open>sendMessage\<close>, once a chat is active: the turn's transient state is reset
  and the user's message is appended. Its id, its attachments and its time come from the
  clock and the chosen files.
\<close>

definition sendMessage_start ::
    "string \<Rightarrow> Attachment list \<Rightarrow> string \<Rightarrow> string \<Rightarrow> ChatState \<Rightarrow> ChatState" where
  "sendMessage_start input optimisticAtts userId userTime s =
     (let s1 = s\<lparr>isLoading := True, streamingMessage := [], activeTools := []\<rparr>;
          userMsg = \<lparr>msg_id = userId, role = user, content = input, tool_calls = None,
                     attachments = (if optimisticAtts \<noteq> [] then Some optimisticAtts else None),
                     created_at = userTime\<rparr>
      in s1\<lparr>messages := messages s1 @ [userMsg]\<rparr>)"

text \<open>
  A whole turn with nothing else running in between: the start, the chunks of the
  stream, its end.
\<close>

definition run_turn ::
    "parser \<Rightarrow> string \<Rightarrow> string \<Rightarrow> string \<Rightarrow> string \<Rightarrow> string \<Rightarrow> string list \<Rightarrow>
     ChatState \<Rightarrow> ChatState" where
  "run_turn parse input userId userTime aiId aiTime chunks s =
     stream_closed aiId aiTime
       (fst (read_chunks parse (sendMessage_start input [] userId userTime s, initial_vars)
               chunks))"

subsection \<open>Pages of messages (setActiveChat, the refresh in sendMessage, loadMoreMessages)\<close>

text \<open>
  The body of a successful response of the messages endpoint, \<open>{messages, has_more}\<close>,
  with its messages typed as the code types them (\<open>Message[]\<close>).
\<close>

record page =
  page_messages :: "Message list"
  has_more :: "bool option"

text \<open>
  How a request ended: it was rejected or its body was no JSON (\<open>Failed\<close>), the response
  was not \<open>ok\<close>, or it was \<open>ok\<close> with the given body.
\<close>

datatype 'a fetched = Failed | NotOk | Ok 'a

text \<open>\<open>data.has_more ?? msgs.length >= 10\<close>\<close>

definition page_has_more :: "page \<Rightarrow> bool" where
  "page_has_more p =
     (case has_more p of Some b \<Rightarrow> b | None \<Rightarrow> length (page_messages p) \<ge> 10)"

text \<open>The filter with the set \<open>seen\<close>: the first message of each id is kept.\<close>

fun first_of_each_id :: "string list \<Rightarrow> Message list \<Rightarrow> Message list" where
  "first_of_each_id seen [] = []"
| "first_of_each_id seen (m # ms) =
     (if msg_id m \<in> set seen then first_of_each_id seen ms
      else m # first_of_each_id (msg_id m # seen) ms)"

text \<open>
  The \<open>map\<close> over the tool calls of a message, \<open>None\<close> when \<open>String\<close> throws. A status
  of the type \<open>ToolStatus\<close> is truthy, so \<open>|| 'completed'\<close> keeps it; citations that are
  strings are kept by \<open>map(String)\<close>.
\<close>

definition normalise_tool :: "ToolCall \<Rightarrow> ToolCall option" where
  "normalise_tool tc =
     map_option (\<lambda>n. tc\<lparr>name := JStr n\<rparr>)
       (to_string (if name tc = JNull then JStr [] else name tc))"

fun those_tools :: "ToolCall option list \<Rightarrow> ToolCall list option" where
  "those_tools [] = Some []"
| "those_tools (None # xs) = None"
| "those_tools (Some t # xs) = map_option ((#) t) (those_tools xs)"

definition normalise_message :: "Message \<Rightarrow> Message option" where
  "normalise_message m =
     map_option (\<lambda>tcs. m\<lparr>tool_calls := Some tcs\<rparr>)
       (those_tools (map normalise_tool (case tool_calls m of None \<Rightarrow> [] | Some tcs \<Rightarrow> tcs)))"

fun those_messages :: "Message option list \<Rightarrow> Message list option" where
  "those_messages [] = Some []"
| "those_messages (None # xs) = None"
| "those_messages (Some m # xs) = map_option ((#) m) (those_messages xs)"

text \<open>
  What setActiveChat and the refresh after a turn do with the response for the most
  recent page: the window is replaced. An exception is caught and changes nothing.
\<close>

definition replace_window :: "page fetched \<Rightarrow> ChatState \<Rightarrow> ChatState" where
  "replace_window r s =
     (case r of
        Ok p \<Rightarrow>
          (case those_messages (map normalise_message (first_of_each_id [] (page_messages p))) of
             None \<Rightarrow> s
           | Some unique \<Rightarrow> s\<lparr>messages := unique, hasMoreMessages := page_has_more p\<rparr>)
      | _ \<Rightarrow> s)"

text \<open>
  The address both of them request, the most recent page of a chat; \<open>apiBase\<close> is
  \<open>getApiBase()\<close>.
\<close>

definition recent_page_url :: "string \<Rightarrow> string \<Rightarrow> string" where
  "recent_page_url apiBase cid = apiBase @ ''/chat/'' @ cid @ ''/messages?limit=10''"

text \<open>setActiveChat: the synchronous reset, then the response of the first page.\<close>

definition setActiveChat_call :: "string \<Rightarrow> ChatState \<Rightarrow> ChatState" where
  "setActiveChat_call cid s =
     s\<lparr>activeChatId := Some cid, messages := [], streamingMessage := [], activeTools := [],
       hasMoreMessages := True\<rparr>"

definition setActiveChat_done :: "page fetched \<Rightarrow> ChatState \<Rightarrow> ChatState" where
  "setActiveChat_done r s = replace_window r s"

text \<open>
  The refresh that follows \<open>stream_closed\<close>. \<open>finalChatId\<close> is the active chat read when
  the stream closed; the request is made only if it is truthy, and its response is
  handled when it arrives.
\<close>

definition refresh_done :: "string option \<Rightarrow> page fetched \<Rightarrow> ChatState \<Rightarrow> ChatState" where
  "refresh_done finalChatId r s =
     (case finalChatId of
        None \<Rightarrow> s
      | Some cid \<Rightarrow> if cid = [] then s else replace_window r s)"

text \<open>
  loadMoreMessages up to its first \<open>await\<close>. The guard returns at once; otherwise the flag
  is set and the request is prepared from the state read at the call. \<open>encode\<close> is
  \<open>encodeURIComponent\<close>.
\<close>

record page_request =
  req_chat :: string
  req_query :: string

definition loadMoreMessages_call ::
    "(string \<Rightarrow> string) \<Rightarrow> ChatState \<Rightarrow> ChatState \<times> page_request option" where
  "loadMoreMessages_call encode s =
     (case activeChatId s of
        None \<Rightarrow> (s, None)
      | Some cid \<Rightarrow>
          if cid = [] \<or> \<not> hasMoreMessages s \<or> isLoadingMore s then (s, None)
          else
            (s\<lparr>isLoadingMore := True\<rparr>,
             Some \<lparr>req_chat = cid,
                   req_query =
                     (case messages s of
                        [] \<Rightarrow> ''?limit=10''
                      | oldestMsg # _ \<Rightarrow>
                          if msg_id oldestMsg \<noteq> []
                          then ''?before='' @ encode (msg_id oldestMsg) @ ''&limit=10''
                          else ''?limit=10'')\<rparr>))"

text \<open>The address that \<open>fetch\<close> is called with.\<close>

definition request_url :: "string \<Rightarrow> page_request \<Rightarrow> string" where
  "request_url apiBase r = apiBase @ ''/chat/'' @ req_chat r @ ''/messages'' @ req_query r"

text \<open>loadMoreMessages when its response has arrived.\<close>

definition loadMoreMessages_done :: "page fetched \<Rightarrow> ChatState \<Rightarrow> ChatState" where
  "loadMoreMessages_done r s =
     (case r of
        Ok p \<Rightarrow>
          if page_messages p = [] then s\<lparr>hasMoreMessages := False, isLoadingMore := False\<rparr>
          else
            (let existingIds = set (map msg_id (messages s));
                 newOnes = filter (\<lambda>m. msg_id m \<notin> existingIds) (page_messages p)
             in s\<lparr>messages := newOnes @ messages s, hasMoreMessages := page_has_more p,
                  isLoadingMore := False\<rparr>)
      | _ \<Rightarrow> s\<lparr>isLoadingMore := False\<rparr>)"

subsection \<open>The steps of a session\<close>

text \<open>
  The steps that the actions above take on the store while one chat is loaded, with one
  stream open at a time: the response for the first page of the chat, a pagination
  trigger and its response, the start of a send, a response that is not \<open>ok\<close> or has no
  body, a chunk of the stream, the end of the stream, an error thrown by the request or
  by a read, and the response of the refresh (with the chat id that was read when the
  stream ended).
\<close>

datatype step =
    First_page_response "page fetched"
  | Load_more
  | Load_more_response "page fetched"
  | Send_start string "Attachment list" string string
  | Send_not_ok string
  | Send_no_body
  | Stream_chunk string
  | Stream_end string string
  | Send_error string
  | Refresh_response "string option" "page fetched"

fun do_step :: "parser \<Rightarrow> (string \<Rightarrow> string) \<Rightarrow> turn \<Rightarrow> step \<Rightarrow> turn" where
  "do_step parse encode (s, v) (First_page_response r) = (setActiveChat_done r s, v)"
| "do_step parse encode (s, v) Load_more = (fst (loadMoreMessages_call encode s), v)"
| "do_step parse encode (s, v) (Load_more_response r) = (loadMoreMessages_done r s, v)"
| "do_step parse encode (s, v) (Send_start input atts userId userTime) =
     (sendMessage_start input atts userId userTime s, initial_vars)"
| "do_step parse encode (s, v) (Send_not_ok errText) = (response_not_ok errText s, v)"
| "do_step parse encode (s, v) Send_no_body = (no_body s, v)"
| "do_step parse encode (s, v) (Stream_chunk chunk) = on_chunk parse (s, v) chunk"
| "do_step parse encode (s, v) (Stream_end aiId aiTime) = (stream_closed aiId aiTime s, v)"
| "do_step parse encode (s, v) (Send_error msg) = (send_failed msg s, v)"
| "do_step parse encode (s, v) (Refresh_response finalChatId r) =
     (refresh_done finalChatId r s, v)"

definition run_steps :: "parser \<Rightarrow> (string \<Rightarrow> string) \<Rightarrow> step list \<Rightarrow> turn \<Rightarrow> turn" where
  "run_steps parse encode steps t = foldl (do_step parse encode) t steps"

text \<open>The steps that bring no page of messages with them, or an empty one.\<close>

fun brings_no_page :: "step \<Rightarrow> bool" where
  "brings_no_page (First_page_response (Ok p)) = False"
| "brings_no_page (Load_more_response (Ok p)) = (page_messages p = [])"
| "brings_no_page (Refresh_response finalChatId (Ok p)) = False"
| "brings_no_page _ = True"

subsection \<open>Notions used by the properties\<close>

text \<open>
  What a line of the stream does to the streamed text, whatever the state: nothing
  (\<open>Silent\<close>: a line without payload, or an event that leaves the text alone and does
  not throw), append a text (\<open>Token\<close>: a \<open>token\<close> event, with its content as a string),
  end the loop over the lines (\<open>Terminal\<close>: the sentinel or a \<open>done\<close> event), or
  something else (\<open>Other\<close>: an \<open>error\<close> event, a payload that is no JSON, an event whose
  handling throws).
\<close>

datatype frame = Silent | Token string | Terminal | Other

definition frame_of :: "parser \<Rightarrow> string \<Rightarrow> frame" where
  "frame_of parse rawLine =
     (case line_data rawLine of
        None \<Rightarrow> Silent
      | Some data \<Rightarrow>
          if data = ''[DONE]'' then Terminal
          else
            (case parse data of
               None \<Rightarrow> Other
             | Some JNull \<Rightarrow> Other
             | Some parsed \<Rightarrow>
                 let ty = field ''type'' parsed;
                     toolName = nullish (field ''name'' parsed) (field ''tool'' parsed)
                 in
                 if ty = Some (JStr ''token'') then
                   (case to_string (the (nullish (field ''content'' parsed) (Some (JStr [])))) of
                      None \<Rightarrow> Other
                    | Some c \<Rightarrow> Token c)
                 else if ty = Some (JStr ''tool_start'') then
                   (if truthy toolName \<and> to_string (the toolName) = None then Other
                    else Silent)
                 else if ty = Some (JStr ''source'') then
                   (if to_string (the (nullish toolName (Some (JStr ''Source'')))) = None
                       \<or> citation_list (field ''citations'' parsed) = None
                    then Other else Silent)
                 else if ty = Some (JStr ''error'') then Other
                 else if ty = Some (JStr ''done'') then Terminal
                 else Silent))"

definition quiet :: "parser \<Rightarrow> string \<Rightarrow> bool" where
  "quiet parse l \<longleftrightarrow> frame_of parse l = Silent \<or> frame_of parse l = Terminal"

text \<open>
  A text that adds nothing to the streamed text wherever reading resumes in it. After a
  terminal event the loop drops the rest of the chunk and the buffer, so the next chunk
  is read from wherever it happens to start: from every position of the text, each
  complete line is silent or terminal.
\<close>

definition inert :: "parser \<Rightarrow> string \<Rightarrow> bool" where
  "inert parse w \<longleftrightarrow>
     list_all (\<lambda>k. list_all (quiet parse) (butlast (split_newline (drop k w))))
       [0..<Suc (length w)]"

text \<open>
  The text of a stream yields exactly the tokens \<open>cs\<close>: it is a sequence of lines, each
  ended by a newline, that are token events or silent, followed by a text that is inert:
  nothing at all, or the end of the turn (a \<open>done\<close> event, the sentinel, or both) and
  what is sent after it. A stream with an \<open>error\<close> event or a malformed payload, or with
  a token after the end of the turn, yields no such sequence.
\<close>

inductive yields_tokens :: "parser \<Rightarrow> string \<Rightarrow> string list \<Rightarrow> bool"
  for parse :: parser where
  rest: "inert parse w \<Longrightarrow> yields_tokens parse w []"
| silent: "CHR 0x0A \<notin> set l \<Longrightarrow> frame_of parse l = Silent \<Longrightarrow> yields_tokens parse w cs \<Longrightarrow>
     yields_tokens parse (l @ CHR 0x0A # w) cs"
| token: "CHR 0x0A \<notin> set l \<Longrightarrow> frame_of parse l = Token c \<Longrightarrow> yields_tokens parse w cs \<Longrightarrow>
     yields_tokens parse (l @ CHR 0x0A # w) (c # cs)"

text \<open>
  The window is in chronological order: by \<open>created_at\<close>, compared as text, which is the
  order in time for timestamps of one ISO 8601 format, as \<open>toISOString\<close> writes them.
\<close>

definition chronological :: "Message list \<Rightarrow> bool" where
  "chronological ms = sorted_wrt (\<lambda>a b. created_at a \<le> created_at b) ms"

definition unique_ids :: "Message list \<Rightarrow> bool" where
  "unique_ids ms = distinct (map msg_id ms)"

subsection \<open>Example data\<close>

text \<open>
  \<open>JSON.parse\<close> on the payloads of the examples. The other payloads that the examples
  send, \<open>[DONE]\<close> and \<open>not json\<close>, are no JSON.
\<close>

definition example_parse :: parser where
  \<open>example_parse = map_of
     [(''{"type":"token","content":"Hello"}'',
         JObj [(''type'', JStr ''token''), (''content'', JStr ''Hello'')]),
      (''{"type":"token","content":" world"}'',
         JObj [(''type'', JStr ''token''), (''content'', JStr '' world'')]),
      (''{"type":"token","content":"late"}'',
         JObj [(''type'', JStr ''token''), (''content'', JStr ''late'')]),
      (''{"type":"tool_start","name":"search"}'',
         JObj [(''type'', JStr ''tool_start''), (''name'', JStr ''search'')]),
      (''{"type":"tool_end","name":"search"}'',
         JObj [(''type'', JStr ''tool_end''), (''name'', JStr ''search'')]),
      (''{"type":"tool_end","name":""}'',
         JObj [(''type'', JStr ''tool_end''), (''name'', JStr [])]),
      (''{"type":"error","content":"Guardrail triggered"}'',
         JObj [(''type'', JStr ''error''), (''content'', JStr ''Guardrail triggered'')]),
      (''{"type":"error","content":""}'',
         JObj [(''type'', JStr ''error''), (''content'', JStr [])]),
      (''{"type":"done"}'', JObj [(''type'', JStr ''done'')])]\<close>

text \<open>\<open>encodeURIComponent\<close> on the ids of the examples: letters and digits stay as they are.\<close>

definition plain :: "string \<Rightarrow> string" where
  "plain i = i"

definition nl :: string where
  "nl = [CHR 0x0A]"

definition example_message :: "string \<Rightarrow> string \<Rightarrow> Message" where
  "example_message i t =
     \<lparr>msg_id = i, role = user, content = ''text'', tool_calls = None, attachments = None,
      created_at = t\<rparr>"

definition m1 :: Message where
  "m1 = example_message ''m1'' ''2024-05-01T10:00:00.000Z''"

definition m2 :: Message where
  "m2 = example_message ''m2'' ''2024-05-01T10:05:00.000Z''"

definition m3 :: Message where
  "m3 = example_message ''m3'' ''2024-05-01T10:10:00.000Z''"

text \<open>A session on chat \<open>A\<close> with one message loaded and nothing in flight.\<close>

definition chat_A :: ChatState where
  "chat_A = initial_state\<lparr>activeChatId := Some ''A'', messages := [m3]\<rparr>"

section \<open>Properties\<close>

subsection \<open>Single events\<close>

lemmas decode_defs = line_data_def trim_def white_space_def startsWith_def strip_data_def

lemmas run_defs = run_turn_def sendMessage_start_def stream_closed_def on_chunk_def
  initial_vars_def initial_state_def chat_A_def nl_def

lemma strict_eq_JStr [simp]: "strict_eq x (JStr n) \<longleftrightarrow> x = JStr n"
  by (cases x) auto

lemma set_first_token_again:
  "hasReceivedFirstToken v \<Longrightarrow> v\<lparr>hasReceivedFirstToken := True\<rparr> = v"
  by simp

text \<open>
  C9. A \<open>tool_start\<close> or \<open>tool_end\<close> event whose payload has no \<open>name\<close> and no \<open>tool\<close>
  (each absent, \<open>null\<close> or the empty string) is ignored: the store and the variables of
  the stream are left as they were, nothing is thrown, and the loop goes on.
\<close>

theorem unnamed_tool_event_ignored:
  assumes "line_data rawLine = Some data" and "data \<noteq> ''[DONE]''"
    and "parse data = Some (JObj kvs)"
    and "map_of kvs ''type'' = Some (JStr ''tool_start'')
         \<or> map_of kvs ''type'' = Some (JStr ''tool_end'')"
    and "map_of kvs ''name'' \<in> {None, Some JNull, Some (JStr [])}"
    and "map_of kvs ''tool'' \<in> {None, Some JNull, Some (JStr [])}"
  shows "process_line parse t rawLine = (t, Next)"
proof -
  have "\<not> truthy (nullish (map_of kvs ''name'') (map_of kvs ''tool''))"
    using assms(5,6) by auto
  with assms(1-4) show ?thesis
    by (cases t) (auto simp: process_line_def try_block_def on_tool_start_def on_tool_end_def)
qed

theorem unnamed_tool_event_ignored_witness:
  \<open>process_line example_parse (chat_A, initial_vars) ''data: {"type":"tool_end","name":""}''
     = ((chat_A, initial_vars), Next)\<close>
  by (rule unnamed_tool_event_ignored [where data = \<open>''{"type":"tool_end","name":""}''\<close>
        and kvs = "[(''type'', JStr ''tool_end''), (''name'', JStr [])]"])
     (simp_all add: decode_defs example_parse_def)

text \<open>
  C5, as the code has it. A \<open>tool_end\<close> event with a non-empty name sets the status
  \<open>completed\<close> on every entry of \<open>activeTools\<close> that has this name, however many there
  are (none, one or several); the entries of other names keep their status, and nothing
  else changes.
\<close>

theorem tool_end_completes_every_entry_of_the_name:
  assumes "line_data rawLine = Some data" and "data \<noteq> ''[DONE]''"
    and "parse data = Some (JObj kvs)"
    and "map_of kvs ''type'' = Some (JStr ''tool_end'')"
    and "map_of kvs ''name'' = Some (JStr n)" and "n \<noteq> []"
  shows "process_line parse (s, v) rawLine =
     ((s\<lparr>activeTools := map (\<lambda>t. if name t = JStr n then t\<lparr>status := completed\<rparr> else t)
                             (activeTools s)\<rparr>, v), Next)"
  using assms by (simp add: process_line_def try_block_def on_tool_end_def)

theorem tool_end_completes_every_entry_of_the_name_witness:
  \<open>process_line example_parse
      (chat_A\<lparr>activeTools := [\<lparr>name = JStr ''search'', status = started, citations = None\<rparr>,
                               \<lparr>name = JStr ''fetch'', status = started, citations = None\<rparr>]\<rparr>,
       initial_vars)
      ''data: {"type":"tool_end","name":"search"}''
    = ((chat_A\<lparr>activeTools := [\<lparr>name = JStr ''search'', status = completed, citations = None\<rparr>,
                               \<lparr>name = JStr ''fetch'', status = started, citations = None\<rparr>]\<rparr>,
        initial_vars), Next)\<close>
  using tool_end_completes_every_entry_of_the_name
    [where rawLine = \<open>''data: {"type":"tool_end","name":"search"}''\<close>
       and data = \<open>''{"type":"tool_end","name":"search"}''\<close>
       and parse = example_parse and n = "''search''"
       and kvs = "[(''type'', JStr ''tool_end''), (''name'', JStr ''search'')]"
       and v = initial_vars
       and s = "chat_A\<lparr>activeTools :=
                  [\<lparr>name = JStr ''search'', status = started, citations = None\<rparr>,
                   \<lparr>name = JStr ''fetch'', status = started, citations = None\<rparr>]\<rparr>"]
  by (simp add: decode_defs example_parse_def)

text \<open>
  C5 as the claim states it fails: the tool \<open>search\<close> starts twice, one \<open>tool_end\<close> for
  \<open>search\<close> arrives, and both entries are completed, not one.
\<close>

theorem tool_end_completes_two_entries:
  \<open>map status (activeTools (fst (read_chunks example_parse (chat_A, initial_vars)
       [''data: {"type":"tool_start","name":"search"}'' @ nl @
        ''data: {"type":"tool_start","name":"search"}'' @ nl]))) = [started, started]
   \<and> map status (activeTools (fst (read_chunks example_parse (chat_A, initial_vars)
       [''data: {"type":"tool_start","name":"search"}'' @ nl @
        ''data: {"type":"tool_start","name":"search"}'' @ nl,
        ''data: {"type":"tool_end","name":"search"}'' @ nl]))) = [completed, completed]\<close>
  by (simp add: run_defs decode_defs example_parse_def process_line_def try_block_def
      on_tool_start_def on_tool_end_def)

text \<open>
  C7. A non-empty payload that fails to parse as JSON is appended to the streamed text as
  it is; the first such payload also counts as the first token (the pending flag is
  cleared); nothing is thrown, and the loop goes on with the next line. (The sentinel
  \<open>[DONE]\<close> is recognised before anything is parsed; it is never a payload that fails
  to parse.)
\<close>

theorem malformed_payload_appended:
  assumes "line_data rawLine = Some p" and "p \<noteq> ''[DONE]''" and "parse p = None"
  shows "(let t' = (s\<lparr>isLoading := (if hasReceivedFirstToken v then isLoading s else False),
                      streamingMessage := streamingMessage s @ p\<rparr>,
                    v\<lparr>hasReceivedFirstToken := True\<rparr>)
          in process_line parse (s, v) rawLine = (t', Next)
           \<and> for_lines parse (s, v) (rawLine # rest) = for_lines parse t' rest)"
proof -
  have "process_line parse (s, v) rawLine =
          ((s\<lparr>isLoading := (if hasReceivedFirstToken v then isLoading s else False),
              streamingMessage := streamingMessage s @ p\<rparr>,
            v\<lparr>hasReceivedFirstToken := True\<rparr>), Next)"
    using assms
    by (simp add: process_line_def try_block_def catch_block_def first_token_def
        set_first_token_again)
  then show ?thesis by (simp add: Let_def)
qed

theorem malformed_payload_appended_witness:
  "process_line example_parse (chat_A\<lparr>isLoading := True\<rparr>, initial_vars) ''data: not json''
     = ((chat_A\<lparr>isLoading := False, streamingMessage := ''not json''\<rparr>,
         initial_vars\<lparr>hasReceivedFirstToken := True\<rparr>), Next)"
  using malformed_payload_appended
    [where rawLine = "''data: not json''" and p = "''not json''" and parse = example_parse
       and s = "chat_A\<lparr>isLoading := True\<rparr>" and v = initial_vars and rest = "[]"]
  by (simp add: decode_defs example_parse_def run_defs Let_def)

subsection \<open>The end of a stream\<close>

lemma break_skips_rest_of_chunk:
  "snd (process_line parse t rawLine) = Break \<Longrightarrow>
     for_lines parse t (rawLine # rest) = fst (process_line parse t rawLine)"
  by (cases "process_line parse t rawLine") simp

lemma sentinel_skips_rest_of_chunk:
  "line_data rawLine = Some ''[DONE]'' \<Longrightarrow>
     for_lines parse (s, v) (rawLine # rest) = (s, v\<lparr>buffer := []\<rparr>)"
  by (simp add: process_line_def)

lemma content_of_appended_message:
  "content (last (messages (stream_closed aiId aiTime s))) = streamingMessage s"
  by (simp add: stream_closed_def Let_def)

text \<open>
  C1 at a failing input. A token line that follows the sentinel in the same chunk is
  discarded: the assistant message of the turn is empty. The same line arriving in a
  second chunk of the same stream is processed: it is the content of the message.
\<close>

theorem frames_after_sentinel_processed:
  \<open>content (last (messages (run_turn example_parse ''hi'' ''1'' ''t1'' ''2'' ''t2''
       [''data: [DONE]'' @ nl @ ''data: {"type":"token","content":"late"}'' @ nl] chat_A)))
    = []
   \<and> content (last (messages (run_turn example_parse ''hi'' ''1'' ''t1'' ''2'' ''t2''
       [''data: [DONE]'' @ nl, ''data: {"type":"token","content":"late"}'' @ nl] chat_A)))
    = ''late''\<close>
  by (simp add: run_defs decode_defs example_parse_def process_line_def try_block_def
      on_token_def first_token_def)

text \<open>
  C8, as the code has it. An \<open>error\<close> event with a string as content, processed while the
  streamed text is empty (as it is before any token), sets the text to the content if
  that is not empty and to \<open>Something went wrong.\<close> if it is; processed while the text
  is not empty, it leaves the text as it is. The pending flag is cleared by the event
  itself if no token came before. The lines left in the chunk are skipped, and if the
  stream closes then, the assistant message has that text as content.
\<close>

theorem error_event:
  assumes "line_data rawLine = Some data" and "data \<noteq> ''[DONE]''"
    and "parse data = Some (JObj kvs)"
    and "map_of kvs ''type'' = Some (JStr ''error'')"
    and "map_of kvs ''content'' = Some (JStr c)"
  shows "(let s' = s\<lparr>isLoading := (if hasReceivedFirstToken v then isLoading s else False),
                     streamingMessage :=
                       (if streamingMessage s \<noteq> [] then streamingMessage s
                        else if c \<noteq> [] then c else ''Something went wrong.'')\<rparr>
          in process_line parse (s, v) rawLine = ((s', v\<lparr>buffer := []\<rparr>), Break)
           \<and> for_lines parse (s, v) (rawLine # rest) = (s', v\<lparr>buffer := []\<rparr>)
           \<and> content (last (messages (stream_closed aiId aiTime
                 (fst (for_lines parse (s, v) (rawLine # rest)))))) = streamingMessage s')"
proof -
  have "process_line parse (s, v) rawLine =
      ((s\<lparr>isLoading := (if hasReceivedFirstToken v then isLoading s else False),
          streamingMessage :=
            (if streamingMessage s \<noteq> [] then streamingMessage s
             else if c \<noteq> [] then c else ''Something went wrong.'')\<rparr>,
        v\<lparr>buffer := []\<rparr>), Break)"
    using assms by (simp add: process_line_def try_block_def on_error_def)
  then show ?thesis
    by (simp add: Let_def content_of_appended_message)
qed

theorem error_event_witness:
  \<open>for_lines example_parse (chat_A\<lparr>isLoading := True\<rparr>, initial_vars)
      [''data: {"type":"error","content":"Guardrail triggered"}'', ''data: {"type":"done"}'']
    = (chat_A\<lparr>isLoading := False, streamingMessage := ''Guardrail triggered''\<rparr>, initial_vars)\<close>
  using error_event
    [where rawLine = \<open>''data: {"type":"error","content":"Guardrail triggered"}''\<close>
       and data = \<open>''{"type":"error","content":"Guardrail triggered"}''\<close>
       and parse = example_parse and c = "''Guardrail triggered''"
       and kvs = "[(''type'', JStr ''error''), (''content'', JStr ''Guardrail triggered'')]"
       and s = "chat_A\<lparr>isLoading := True\<rparr>" and v = initial_vars
       and rest = \<open>[''data: {"type":"done"}'']\<close> and aiId = "''2''" and aiTime = "''t2''"]
  by (simp add: decode_defs example_parse_def run_defs Let_def)

text \<open>
  C8 as the claim states it fails for an error whose content is the empty string: it
  arrives before any token, and the content of the final message is the fixed text, not
  the content of the error.
\<close>

theorem empty_error_content_replaced:
  \<open>content (last (messages (run_turn example_parse ''hi'' ''1'' ''t1'' ''2'' ''t2''
       [''data: {"type":"error","content":""}'' @ nl] chat_A)))
    = ''Something went wrong.''
   \<and> ''Something went wrong.'' \<noteq> ([] :: string)\<close>
  by (simp add: run_defs decode_defs example_parse_def process_line_def try_block_def
      on_error_def)

subsection \<open>Streams of tokens\<close>

text \<open>
  The split of a text that arrives in two parts: the complete lines of the first part,
  then the split of its last piece followed by the second part. This is what the buffer
  of the \<open>while\<close> loop relies on.
\<close>

lemma split_newline_not_empty [simp]: "split_newline s \<noteq> []"
  by (induction s) (auto split: list.splits)

lemma split_newline_Cons:
  "split_newline (c # cs) =
     (if c = CHR 0x0A then [] # split_newline cs
      else (c # hd (split_newline cs)) # tl (split_newline cs))"
  by (cases "split_newline cs") auto

lemma split_newline_append:
  "split_newline (a @ b) =
     butlast (split_newline a) @ split_newline (last (split_newline a) @ b)"
proof (induction a)
  case Nil
  then show ?case by simp
next
  case (Cons c a)
  show ?case
  proof (cases "c = CHR 0x0A")
    case True
    with Cons show ?thesis by simp
  next
    case False
    obtain x xs where sa: "split_newline a = x # xs"
      by (cases "split_newline a") auto
    show ?thesis
    proof (cases xs)
      case Nil
      with sa Cons False show ?thesis by (simp add: split_newline_Cons)
    next
      case (Cons y ys)
      with sa Cons.IH False show ?thesis by (simp add: split_newline_Cons)
    qed
  qed
qed

lemma split_newline_line:
  "CHR 0x0A \<notin> set l \<Longrightarrow> split_newline (l @ CHR 0x0A # w) = l # split_newline w"
  by (induction l) (auto simp: split_newline_Cons)

lemma split_newline_pieces: "l \<in> set (split_newline s) \<Longrightarrow> CHR 0x0A \<notin> set l"
proof (induction s arbitrary: l)
  case Nil
  then show ?case by simp
next
  case (Cons c s)
  obtain x xs where sp: "split_newline s = x # xs"
    by (cases "split_newline s") auto
  with Cons show ?case
    by (cases "c = CHR 0x0A") auto
qed

lemma split_newline_no_newline: "CHR 0x0A \<notin> set s \<Longrightarrow> split_newline s = [s]"
  by (induction s) (auto simp: split_newline_Cons)

lemma split_newline_text:
  "concat (map (\<lambda>l. l @ [CHR 0x0A]) (butlast (split_newline s))) @ last (split_newline s) = s"
proof (induction s)
  case Nil
  then show ?case by simp
next
  case (Cons c s)
  obtain x xs where sp: "split_newline s = x # xs"
    by (cases "split_newline s") auto
  with Cons show ?case
    by (cases "c = CHR 0x0A"; cases xs) auto
qed

text \<open>The frame of a line says what the line does in every state.\<close>

lemma try_block_parsed:
  "parse data = Some parsed \<Longrightarrow> parsed \<noteq> JNull \<Longrightarrow>
   try_block parse data t =
     (let ty = field ''type'' parsed in
      if ty = Some (JStr ''token'') then on_token parsed t
      else if ty = Some (JStr ''tool_start'') then on_tool_start parsed t
      else if ty = Some (JStr ''tool_end'') then on_tool_end parsed t
      else if ty = Some (JStr ''source'') then on_source parsed t
      else if ty = Some (JStr ''title_update'') then on_title_update parsed t
      else if ty = Some (JStr ''error'') then on_error parsed t
      else if ty = Some (JStr ''done'') then
        (case t of (s, v) \<Rightarrow> Ran (s, v\<lparr>buffer := []\<rparr>) Break)
      else Ran t Next)"
  by (cases parsed; hypsubst; simp add: try_block_def)

lemma frame_of_parsed:
  "line_data l = Some data \<Longrightarrow> data \<noteq> ''[DONE]'' \<Longrightarrow> parse data = Some parsed \<Longrightarrow>
   parsed \<noteq> JNull \<Longrightarrow>
   frame_of parse l =
     (let ty = field ''type'' parsed;
          toolName = nullish (field ''name'' parsed) (field ''tool'' parsed)
      in
      if ty = Some (JStr ''token'') then
        (case to_string (the (nullish (field ''content'' parsed) (Some (JStr [])))) of
           None \<Rightarrow> Other
         | Some c \<Rightarrow> Token c)
      else if ty = Some (JStr ''tool_start'') then
        (if truthy toolName \<and> to_string (the toolName) = None then Other else Silent)
      else if ty = Some (JStr ''source'') then
        (if to_string (the (nullish toolName (Some (JStr ''Source'')))) = None
            \<or> citation_list (field ''citations'' parsed) = None
         then Other else Silent)
      else if ty = Some (JStr ''error'') then Other
      else if ty = Some (JStr ''done'') then Terminal
      else Silent)"
  by (cases parsed; hypsubst; simp add: frame_of_def)

lemma frame_of_cases:
  obtains (no_payload) "line_data l = None" "frame_of parse l = Silent"
  | (sentinel) "line_data l = Some ''[DONE]''" "frame_of parse l = Terminal"
  | (unparsed) data where "line_data l = Some data" "data \<noteq> ''[DONE]''"
      "parse data = None \<or> parse data = Some JNull" "frame_of parse l = Other"
  | (parsed) data parsed where "line_data l = Some data" "data \<noteq> ''[DONE]''"
      "parse data = Some parsed" "parsed \<noteq> JNull"
proof (cases "line_data l")
  case None
  then show ?thesis using no_payload by (simp add: frame_of_def)
next
  case (Some data)
  show ?thesis
  proof (cases "data = ''[DONE]''")
    case True
    with Some show ?thesis using sentinel by (simp add: frame_of_def)
  next
    case False
    show ?thesis
    proof (cases "parse data")
      case None
      with Some False show ?thesis using unparsed [of data] by (simp add: frame_of_def)
    next
      case (Some parsed)
      show ?thesis
      proof (cases "parsed = JNull")
        case True
        with Some \<open>line_data l = Some data\<close> False show ?thesis
          using unparsed [of data] by (simp add: frame_of_def)
      next
        case False
        with Some \<open>line_data l = Some data\<close> \<open>data \<noteq> ''[DONE]''\<close> show ?thesis
          using parsed by blast
      qed
    qed
  qed
qed

lemma frame_Silent:
  assumes "frame_of parse l = Silent"
  shows "\<exists>s' v'. process_line parse (s, v) l = ((s', v'), Next)
           \<and> streamingMessage s' = streamingMessage s \<and> buffer v' = buffer v"
proof (cases rule: frame_of_cases [where l = l and parse = parse])
  case no_payload
  then show ?thesis by (simp add: process_line_def)
next
  case sentinel
  with assms show ?thesis by simp
next
  case (unparsed data)
  with assms show ?thesis by simp
next
  case (parsed data parsed)
  from assms show ?thesis
    unfolding frame_of_parsed [where parse = parse and l = l, OF parsed] process_line_def
    using parsed
    by (auto simp: try_block_parsed Let_def on_tool_start_def on_tool_end_def on_source_def
        on_title_update_def split: if_splits option.splits)
qed

lemma frame_Token:
  assumes "frame_of parse l = Token c"
  shows "\<exists>s' v'. process_line parse (s, v) l = ((s', v'), Next)
           \<and> streamingMessage s' = streamingMessage s @ c \<and> buffer v' = buffer v"
proof (cases rule: frame_of_cases [where l = l and parse = parse])
  case no_payload
  with assms show ?thesis by simp
next
  case sentinel
  with assms show ?thesis by simp
next
  case (unparsed data)
  with assms show ?thesis by simp
next
  case (parsed data parsed)
  from assms show ?thesis
    unfolding frame_of_parsed [where parse = parse and l = l, OF parsed] process_line_def
    using parsed
    by (auto simp: try_block_parsed Let_def on_token_def first_token_def
        split: if_splits option.splits)
qed

lemma frame_Terminal:
  assumes "frame_of parse l = Terminal"
  shows "process_line parse (s, v) l = ((s, v\<lparr>buffer := []\<rparr>), Break)"
proof (cases rule: frame_of_cases [where l = l and parse = parse])
  case no_payload
  with assms show ?thesis by simp
next
  case sentinel
  then show ?thesis by (simp add: process_line_def)
next
  case (unparsed data)
  with assms show ?thesis by simp
next
  case (parsed data parsed)
  from assms show ?thesis
    unfolding frame_of_parsed [where parse = parse and l = l, OF parsed] process_line_def
    using parsed
    by (auto simp: try_block_parsed Let_def split: if_splits option.splits)
qed


lemma inert_iff:
  "inert parse w \<longleftrightarrow>
     (\<forall>k. \<forall>l\<in>set (butlast (split_newline (drop k w))). quiet parse l)"
proof
  assume i: "inert parse w"
  show "\<forall>k. \<forall>l\<in>set (butlast (split_newline (drop k w))). quiet parse l"
  proof (intro allI ballI)
    fix k l
    assume l: "l \<in> set (butlast (split_newline (drop k w)))"
    then have "k < Suc (length w)"
      by (cases "k \<le> length w") auto
    with i l show "quiet parse l"
      by (auto simp: inert_def list_all_iff)
  qed
next
  assume "\<forall>k. \<forall>l\<in>set (butlast (split_newline (drop k w))). quiet parse l"
  then show "inert parse w"
    by (auto simp: inert_def list_all_iff)
qed

lemma inert_drop: "inert parse w \<Longrightarrow> inert parse (drop k w)"
  by (simp add: inert_iff)

lemma inert_append: "inert parse (a @ w) \<Longrightarrow> inert parse w"
  using inert_drop [of parse "a @ w" "length a"] by simp

lemma inert_first:
  assumes "inert parse (l @ CHR 0x0A # w)" and "CHR 0x0A \<notin> set l"
  shows "quiet parse l"
proof -
  have "l \<in> set (butlast (split_newline (drop 0 (l @ CHR 0x0A # w))))"
    using assms(2) by (simp add: split_newline_line)
  with assms(1) show ?thesis
    unfolding inert_iff by blast
qed

lemma inert_rest: "inert parse (l @ CHR 0x0A # w) \<Longrightarrow> inert parse w"
  using inert_append [of parse "l @ [CHR 0x0A]" w] by simp

lemma first_line_unique:
  assumes "l @ CHR 0x0A # w = l' @ CHR 0x0A # w'"
    and "CHR 0x0A \<notin> set l" and "CHR 0x0A \<notin> set l'"
  shows "l = l' \<and> w = w'"
proof -
  have "split_newline (l @ CHR 0x0A # w) = split_newline (l' @ CHR 0x0A # w')"
    using assms(1) by simp
  then have "l = l'"
    using assms(2,3) by (simp add: split_newline_line)
  with assms(1) show ?thesis by simp
qed

lemma yields_line:
  assumes "yields_tokens parse (l @ CHR 0x0A # w) cs" and "CHR 0x0A \<notin> set l"
  shows "(frame_of parse l = Silent \<and> yields_tokens parse w cs)
       \<or> (\<exists>c cs'. frame_of parse l = Token c \<and> cs = c # cs' \<and> yields_tokens parse w cs')
       \<or> (frame_of parse l = Terminal \<and> cs = [] \<and> inert parse w)"
  using assms(1)
proof (cases rule: yields_tokens.cases)
  case rest
  then have q: "quiet parse l" and r: "inert parse w"
    using assms(2) inert_first inert_rest by blast+
  with rest show ?thesis
    by (auto simp: quiet_def intro: yields_tokens.rest)
next
  case (silent l' w')
  with assms(2) first_line_unique [of l w l' w'] show ?thesis by auto
next
  case (token l' c w' cs')
  with assms(2) first_line_unique [of l w l' w'] show ?thesis by auto
qed

lemma yields_no_newline:
  assumes "yields_tokens parse w cs" and "CHR 0x0A \<notin> set w"
  shows "cs = []"
  using assms by (cases rule: yields_tokens.cases) auto

lemma for_lines_yields:
  assumes "yields_tokens parse (concat (map (\<lambda>l. l @ [CHR 0x0A]) ls) @ x) cs"
    and "\<forall>l\<in>set ls. CHR 0x0A \<notin> set l"
  shows "\<exists>s' v' as bs. for_lines parse (s, v) ls = (s', v') \<and> cs = as @ bs
           \<and> streamingMessage s' = streamingMessage s @ concat as
           \<and> (buffer v' = buffer v \<and> yields_tokens parse x bs
              \<or> buffer v' = [] \<and> bs = [] \<and> inert parse x)"
  using assms
proof (induction ls arbitrary: s v cs)
  case Nil
  then have "for_lines parse (s, v) [] = (s, v) \<and> cs = [] @ cs
      \<and> streamingMessage s = streamingMessage s @ concat []
      \<and> (buffer v = buffer v \<and> yields_tokens parse x cs)"
    by simp
  then show ?case by blast
next
  case (Cons l ls)
  let ?w = "concat (map (\<lambda>l. l @ [CHR 0x0A]) ls) @ x"
  from Cons.prems have y: "yields_tokens parse (l @ CHR 0x0A # ?w) cs"
    and nl: "CHR 0x0A \<notin> set l" and nls: "\<forall>l\<in>set ls. CHR 0x0A \<notin> set l"
    by simp_all
  from yields_line [OF y nl] consider
      (silent) "frame_of parse l = Silent" "yields_tokens parse ?w cs"
    | (token) c cs' where "frame_of parse l = Token c" "cs = c # cs'" "yields_tokens parse ?w cs'"
    | (terminal) "frame_of parse l = Terminal" "cs = []" "inert parse ?w"
    by blast
  then show ?case
  proof cases
    case silent
    from frame_Silent [OF silent(1), of s v] obtain s1 v1 where
      p: "process_line parse (s, v) l = ((s1, v1), Next)"
      and t: "streamingMessage s1 = streamingMessage s" and b: "buffer v1 = buffer v"
      by blast
    from Cons.IH [OF silent(2) nls, of s1 v1] p t b show ?thesis
      by auto
  next
    case token
    from frame_Token [OF token(1), of s v] obtain s1 v1 where
      p: "process_line parse (s, v) l = ((s1, v1), Next)"
      and t: "streamingMessage s1 = streamingMessage s @ c" and b: "buffer v1 = buffer v"
      by blast
    from Cons.IH [OF token(3) nls, of s1 v1] obtain s' v' as bs where
      r: "for_lines parse (s1, v1) ls = (s', v')" "cs' = as @ bs"
        "streamingMessage s' = streamingMessage s1 @ concat as"
        "buffer v' = buffer v1 \<and> yields_tokens parse x bs
         \<or> buffer v' = [] \<and> bs = [] \<and> inert parse x"
      by blast
    have "for_lines parse (s, v) (l # ls) = (s', v')"
      using p r(1) by simp
    moreover have "cs = (c # as) @ bs"
      using token(2) r(2) by simp
    moreover have "streamingMessage s' = streamingMessage s @ concat (c # as)"
      using t r(3) by simp
    ultimately show ?thesis
      using r(4) b by metis
  next
    case terminal
    have "for_lines parse (s, v) (l # ls) = (s, v\<lparr>buffer := []\<rparr>)"
      by (simp add: frame_Terminal [OF terminal(1)])
    moreover have "inert parse x"
      using terminal(3) by (rule inert_append)
    ultimately show ?thesis
      using terminal(2) by simp
  qed
qed

lemma read_chunks_yields:
  assumes "CHR 0x0A \<notin> set (buffer v)"
    and "yields_tokens parse (buffer v @ concat chunks) cs"
  shows "streamingMessage (fst (read_chunks parse (s, v) chunks)) =
           streamingMessage s @ concat cs"
  using assms
proof (induction chunks arbitrary: s v cs)
  case Nil
  then have "cs = []" using yields_no_newline [of parse "buffer v" cs] by simp
  then show ?case by simp
next
  case (Cons ch chunks)
  let ?segs = "split_newline (buffer v @ ch)"
  let ?x = "last ?segs @ concat chunks"
  have whole: "buffer v @ concat (ch # chunks) =
      concat (map (\<lambda>l. l @ [CHR 0x0A]) (butlast ?segs)) @ ?x"
    using split_newline_text [of "buffer v @ ch"] by (simp flip: append_assoc)
  have nls: "\<forall>l\<in>set (butlast ?segs). CHR 0x0A \<notin> set l"
    by (auto dest: in_set_butlastD split_newline_pieces)
  have nlast: "CHR 0x0A \<notin> set (last ?segs)"
    by (rule split_newline_pieces [of _ "buffer v @ ch"]) simp
  from Cons.prems(2) have "yields_tokens parse
      (concat (map (\<lambda>l. l @ [CHR 0x0A]) (butlast ?segs)) @ ?x) cs"
    by (simp only: whole)
  from for_lines_yields [OF this nls, of s "v\<lparr>buffer := last ?segs\<rparr>"]
  obtain s' v' as bs where
    r: "for_lines parse (s, v\<lparr>buffer := last ?segs\<rparr>) (butlast ?segs) = (s', v')"
      "cs = as @ bs" "streamingMessage s' = streamingMessage s @ concat as"
      "buffer v' = last ?segs \<and> yields_tokens parse ?x bs
       \<or> buffer v' = [] \<and> bs = [] \<and> inert parse ?x"
    by auto
  have chunk: "on_chunk parse (s, v) ch = (s', v')"
    using r(1) by (simp add: on_chunk_def Let_def)
  from r(4) have "CHR 0x0A \<notin> set (buffer v') \<and> yields_tokens parse (buffer v' @ concat chunks) bs"
  proof
    assume "buffer v' = last ?segs \<and> yields_tokens parse ?x bs"
    with nlast show ?thesis by simp
  next
    assume a: "buffer v' = [] \<and> bs = [] \<and> inert parse ?x"
    then have "inert parse (concat chunks)" by (auto dest: inert_append)
    with a show ?thesis by (auto intro: yields_tokens.rest)
  qed
  then have "streamingMessage (fst (read_chunks parse (s', v') chunks)) =
      streamingMessage s' @ concat bs"
    using Cons.IH [of v' bs s'] by simp
  with chunk r(2,3) show ?case by simp
qed


lemma process_line_messages:
  "messages (fst (fst (process_line parse t l))) = messages (fst t)"
  by (cases t)
     (auto simp: process_line_def try_block_def catch_block_def first_token_def on_token_def
        on_tool_start_def on_tool_end_def on_source_def on_title_update_def on_error_def
        Let_def
        split: option.splits json.splits tried.splits if_splits)

lemma for_lines_messages:
  "messages (fst (for_lines parse t ls)) = messages (fst t)"
proof (induction ls arbitrary: t)
  case Nil
  then show ?case by simp
next
  case (Cons l ls)
  obtain t' f where p: "process_line parse t l = (t', f)"
    by (cases "process_line parse t l")
  then have "messages (fst t') = messages (fst t)"
    using process_line_messages [of parse t l] by simp
  with p Cons.IH [of t'] show ?case
    by (cases f) simp_all
qed

lemma read_chunks_messages:
  "messages (fst (read_chunks parse t chunks)) = messages (fst t)"
proof (induction chunks arbitrary: t)
  case Nil
  then show ?case by simp
next
  case (Cons ch chunks)
  have "messages (fst (on_chunk parse t ch)) = messages (fst t)"
    by (cases t) (simp add: on_chunk_def Let_def for_lines_messages)
  with Cons.IH [of "on_chunk parse t ch"] show ?case by simp
qed

text \<open>
  C4. A turn whose stream yields exactly the token events with the contents
  \<open>c\<^sub>1, \<dots>, c\<^sub>n\<close>, in that order, with no error and no malformed frame (among them
  there may be lines without payload and events that leave the text alone, and after
  them the turn may end with a \<open>done\<close> event or the sentinel), however the stream is cut
  into chunks: the assistant message appended when the stream closes has the content
  \<open>c\<^sub>1 @ \<dots> @ c\<^sub>n\<close>.
\<close>

theorem token_contents_concatenated:
  assumes "yields_tokens parse (concat chunks) cs"
  shows "\<exists>tools. messages (run_turn parse input userId userTime aiId aiTime chunks s) =
           messages (sendMessage_start input [] userId userTime s) @
           [\<lparr>msg_id = aiId, role = assistant, content = concat cs,
             tool_calls = Some tools, attachments = None, created_at = aiTime\<rparr>]"
proof -
  let ?s0 = "sendMessage_start input [] userId userTime s"
  let ?t = "read_chunks parse (?s0, initial_vars) chunks"
  have "streamingMessage (fst ?t) = streamingMessage ?s0 @ concat cs"
    by (rule read_chunks_yields) (simp_all add: initial_vars_def assms)
  then have c: "streamingMessage (fst ?t) = concat cs"
    by (simp add: sendMessage_start_def Let_def)
  have m: "messages (fst ?t) = messages ?s0"
    using read_chunks_messages [of parse "(?s0, initial_vars)" chunks] by simp
  have "messages (run_turn parse input userId userTime aiId aiTime chunks s) =
      messages ?s0 @
      [\<lparr>msg_id = aiId, role = assistant, content = concat cs,
        tool_calls = Some (activeTools (fst ?t)), attachments = None, created_at = aiTime\<rparr>]"
    using c m by (simp add: run_turn_def stream_closed_def Let_def)
  then show ?thesis by blast
qed

text \<open>
  An example: the tokens \<open>Hello\<close> and \<open> world\<close>, the first cut in two by the chunks,
  then a \<open>done\<close> event, then the sentinel in a chunk of its own. The end of this stream
  is inert.
\<close>

lemma example_ending:
  \<open>inert example_parse
     (''data: {"type":"done"}'' @ CHR 0x0A # CHR 0x0A # ''data: [DONE]'' @ [CHR 0x0A, CHR 0x0A])\<close>
  by (simp add: inert_def quiet_def frame_of_def decode_defs example_parse_def upt_rec)

theorem token_contents_concatenated_witness:
  \<open>\<exists>tools. messages (run_turn example_parse ''hi'' ''1'' ''t1'' ''2'' ''t2''
       [''data: {"type":"tok'',
        ''en","content":"Hello"}'' @ nl @ nl @ ''data: {"type":"token","content":" world"}''
          @ nl @ nl @ ''data: {"type":"done"}'' @ nl @ nl,
        ''data: [DONE]'' @ nl @ nl]
       chat_A)
    = [m3,
       \<lparr>msg_id = ''1'', role = user, content = ''hi'', tool_calls = None, attachments = None,
         created_at = ''t1''\<rparr>,
       \<lparr>msg_id = ''2'', role = assistant, content = ''Hello world'', tool_calls = Some tools,
         attachments = None, created_at = ''t2''\<rparr>]\<close>
proof -
  let ?e = \<open>''data: {"type":"done"}'' @ CHR 0x0A # CHR 0x0A # ''data: [DONE]'' @ [CHR 0x0A, CHR 0x0A]\<close>
  have 1: "yields_tokens example_parse ([] @ CHR 0x0A # ?e) []"
    by (intro yields_tokens.silent yields_tokens.rest example_ending)
       (simp_all add: frame_of_def decode_defs)
  have 2: \<open>yields_tokens example_parse
      (''data: {"type":"token","content":" world"}'' @ CHR 0x0A # [] @ CHR 0x0A # ?e) ['' world'']\<close>
    by (intro yields_tokens.token 1) (simp_all add: frame_of_def decode_defs example_parse_def)
  have 3: \<open>yields_tokens example_parse
      ([] @ CHR 0x0A # ''data: {"type":"token","content":" world"}'' @ CHR 0x0A # [] @ CHR 0x0A # ?e)
      ['' world'']\<close>
    by (intro yields_tokens.silent 2) (simp_all add: frame_of_def decode_defs)
  have 4: \<open>yields_tokens example_parse
      (''data: {"type":"token","content":"Hello"}'' @ CHR 0x0A #
       [] @ CHR 0x0A # ''data: {"type":"token","content":" world"}'' @ CHR 0x0A # [] @ CHR 0x0A # ?e)
      [''Hello'', '' world'']\<close>
    by (intro yields_tokens.token 3) (simp_all add: frame_of_def decode_defs example_parse_def)
  have y: \<open>yields_tokens example_parse (concat
       [''data: {"type":"tok'',
        ''en","content":"Hello"}'' @ nl @ nl @ ''data: {"type":"token","content":" world"}''
          @ nl @ nl @ ''data: {"type":"done"}'' @ nl @ nl,
        ''data: [DONE]'' @ nl @ nl]) [''Hello'', '' world'']\<close>
    using 4 by (simp add: nl_def)
  show ?thesis
    using token_contents_concatenated [OF y, where s = chat_A and input = "''hi''"
        and userId = "''1''" and userTime = "''t1''" and aiId = "''2''" and aiTime = "''t2''"]
    by (simp add: sendMessage_start_def chat_A_def initial_state_def)
qed

subsection \<open>Pagination\<close>

lemmas example_defs = m1_def m2_def m3_def example_message_def chat_A_def initial_state_def
  initial_vars_def nl_def

text \<open>
  C10. loadMoreMessages called while the window is empty, with a chat active, more
  messages expected and no pagination in flight, does not fail and is no no-op: it sets
  the in-flight flag and requests the page without a \<open>before\<close> cursor, which is the very
  address that the most recent page of the chat is requested with.
\<close>

theorem load_more_on_empty_window:
  assumes "activeChatId s = Some cid" and "cid \<noteq> []" and "hasMoreMessages s"
    and "\<not> isLoadingMore s" and "messages s = []"
  shows "loadMoreMessages_call encode s =
           (s\<lparr>isLoadingMore := True\<rparr>, Some \<lparr>req_chat = cid, req_query = ''?limit=10''\<rparr>)
         \<and> request_url apiBase \<lparr>req_chat = cid, req_query = ''?limit=10''\<rparr> =
             recent_page_url apiBase cid"
  using assms by (simp add: loadMoreMessages_call_def request_url_def recent_page_url_def)

theorem load_more_on_empty_window_witness:
  "loadMoreMessages_call plain (setActiveChat_call ''A'' initial_state) =
     ((setActiveChat_call ''A'' initial_state)\<lparr>isLoadingMore := True\<rparr>,
      Some \<lparr>req_chat = ''A'', req_query = ''?limit=10''\<rparr>)
   \<and> request_url ''http://localhost:8000/api'' \<lparr>req_chat = ''A'', req_query = ''?limit=10''\<rparr> =
       ''http://localhost:8000/api/chat/A/messages?limit=10''"
  using load_more_on_empty_window [where s = "setActiveChat_call ''A'' initial_state"
      and cid = "''A''" and encode = plain and apiBase = "''http://localhost:8000/api''"]
  by (simp add: setActiveChat_call_def initial_state_def recent_page_url_def plain_def)

text \<open>
  C6, as the code has it. For every page, every message of the page whose id is in the
  window is dropped and the others are put in front of the window in the order of the
  page. If no id occurs twice in the page and none occurs twice in the window, none
  occurs twice in the merged window. If the page and the window are in chronological
  order and no message of the page is later than one of the window, the merged window is
  in chronological order.
\<close>

theorem pagination_merge:
  "messages (loadMoreMessages_done (Ok p) s) =
     filter (\<lambda>m. msg_id m \<notin> set (map msg_id (messages s))) (page_messages p) @ messages s
   \<and> (unique_ids (page_messages p) \<and> unique_ids (messages s) \<longrightarrow>
        unique_ids (messages (loadMoreMessages_done (Ok p) s)))
   \<and> (chronological (page_messages p) \<and> chronological (messages s)
        \<and> (\<forall>a\<in>set (page_messages p). \<forall>b\<in>set (messages s). created_at a \<le> created_at b) \<longrightarrow>
        chronological (messages (loadMoreMessages_done (Ok p) s)))"
proof (intro conjI impI)
  let ?new = "filter (\<lambda>m. msg_id m \<notin> set (map msg_id (messages s))) (page_messages p)"
  show merged: "messages (loadMoreMessages_done (Ok p) s) = ?new @ messages s"
    by (simp add: loadMoreMessages_done_def Let_def)
  {
    assume u: "unique_ids (page_messages p) \<and> unique_ids (messages s)"
    then have "distinct (map msg_id ?new)"
      by (simp add: unique_ids_def distinct_map_filter)
    moreover have "set (map msg_id ?new) \<inter> set (map msg_id (messages s)) = {}"
      by auto
    ultimately have "unique_ids (?new @ messages s)"
      using u by (simp add: unique_ids_def)
    with merged show "unique_ids (messages (loadMoreMessages_done (Ok p) s))"
      by simp
  }
  {
    assume c: "chronological (page_messages p) \<and> chronological (messages s)
        \<and> (\<forall>a\<in>set (page_messages p). \<forall>b\<in>set (messages s). created_at a \<le> created_at b)"
    then have "sorted_wrt (\<lambda>a b. created_at a \<le> created_at b) ?new"
      by (simp add: chronological_def sorted_wrt_filter)
    with c have "chronological (?new @ messages s)"
      by (simp add: chronological_def sorted_wrt_append)
    with merged show "chronological (messages (loadMoreMessages_done (Ok p) s))"
      by simp
  }
qed

theorem pagination_merge_witness:
  "messages (loadMoreMessages_done (Ok \<lparr>page_messages = [m1, m2, m3], has_more = None\<rparr>) chat_A)
     = [m1, m2, m3]
   \<and> unique_ids [m1, m2, m3] \<and> chronological [m1, m2, m3]"
proof -
  have le: "created_at m1 \<le> created_at m2" "created_at m2 \<le> created_at m3"
    "created_at m1 \<le> created_at m3"
    by (simp_all add: example_defs less_eq_char_def)
  have "unique_ids [m1, m2, m3]" "chronological [m1, m2, m3]"
    using le by (simp_all add: unique_ids_def chronological_def) (simp_all add: example_defs)
  then show ?thesis
    using le pagination_merge [where s = chat_A
      and p = "\<lparr>page_messages = [m1, m2, m3], has_more = None\<rparr>"]
    by (simp add: chat_A_def initial_state_def unique_ids_def chronological_def)
qed

text \<open>
  C6 as the claim states it fails for a page of older messages that the server returns
  newest first: the two messages are older than the window and their ids are new, they
  are put in front of the window in the order returned, and the window is not in
  chronological order.
\<close>

theorem page_order_kept:
  "messages (loadMoreMessages_done (Ok \<lparr>page_messages = [m2, m1], has_more = Some False\<rparr>) chat_A)
     = [m2, m1, m3]
   \<and> created_at m1 \<le> created_at m3 \<and> created_at m2 \<le> created_at m3
   \<and> unique_ids [m2, m1, m3]
   \<and> \<not> chronological [m2, m1, m3]"
  by (simp add: loadMoreMessages_done_def unique_ids_def chronological_def example_defs
      less_eq_char_def)

subsection \<open>Responses that arrive late\<close>

text \<open>
  C3, as the code has it. The response of a pagination fetch or of the refresh after a
  turn is applied to the store as it is when the response arrives, with no check of the
  active chat: neither handler reads or writes \<open>activeChatId\<close>. After a switch to
  another chat, the page of a pagination fetch of the previous chat becomes the window of
  the new session, with its \<open>hasMoreMessages\<close>, and so does the page of a refresh for
  the previous chat (its messages with their tool calls normalised, the first of each
  id), unless normalising throws.
\<close>

theorem responses_ignore_active_chat:
  "loadMoreMessages_done r (s\<lparr>activeChatId := a\<rparr>) =
     (loadMoreMessages_done r s)\<lparr>activeChatId := a\<rparr>
   \<and> refresh_done finalChatId r (s\<lparr>activeChatId := a\<rparr>) =
     (refresh_done finalChatId r s)\<lparr>activeChatId := a\<rparr>
   \<and> loadMoreMessages_done (Ok p) (setActiveChat_call other s) =
     (setActiveChat_call other s)
       \<lparr>messages := page_messages p,
        hasMoreMessages := (page_messages p \<noteq> [] \<and> page_has_more p),
        isLoadingMore := False\<rparr>
   \<and> refresh_done (Some (c # cid)) (Ok p) (setActiveChat_call other s) =
     (case those_messages (map normalise_message (first_of_each_id [] (page_messages p))) of
        None \<Rightarrow> setActiveChat_call other s
      | Some unique \<Rightarrow>
          (setActiveChat_call other s)
            \<lparr>messages := unique, hasMoreMessages := page_has_more p\<rparr>)"
  by (simp add: loadMoreMessages_done_def refresh_done_def replace_window_def
      setActiveChat_call_def Let_def split: fetched.splits option.splits)

text \<open>
  C3 as the claim states it fails: a pagination fetch for chat \<open>A\<close> is in flight, the
  user switches to chat \<open>B\<close>, the response arrives. The window of \<open>B\<close>, empty after the
  switch, now holds the messages of \<open>A\<close>, and \<open>hasMoreMessages\<close> of \<open>B\<close> is false. The
  response of a refresh for \<open>A\<close> replaces the window of \<open>B\<close> in the same way.
\<close>

theorem stale_responses_written_after_switch:
  "snd (loadMoreMessages_call plain chat_A) =
     Some \<lparr>req_chat = ''A'', req_query = ''?before=m3&limit=10''\<rparr>
   \<and> activeChatId (setActiveChat_call ''B'' (fst (loadMoreMessages_call plain chat_A))) =
     Some ''B''
   \<and> messages (setActiveChat_call ''B'' (fst (loadMoreMessages_call plain chat_A))) = []
   \<and> messages (loadMoreMessages_done (Ok \<lparr>page_messages = [m1, m2], has_more = Some False\<rparr>)
        (setActiveChat_call ''B'' (fst (loadMoreMessages_call plain chat_A)))) = [m1, m2]
   \<and> \<not> hasMoreMessages
        (loadMoreMessages_done (Ok \<lparr>page_messages = [m1, m2], has_more = Some False\<rparr>)
          (setActiveChat_call ''B'' (fst (loadMoreMessages_call plain chat_A))))
   \<and> map msg_id (messages (refresh_done (Some ''A'')
        (Ok \<lparr>page_messages = [m2, m3], has_more = Some False\<rparr>)
        (setActiveChat_call ''B'' chat_A))) = [''m2'', ''m3'']"
  by (simp add: loadMoreMessages_call_def loadMoreMessages_done_def setActiveChat_call_def
      refresh_done_def replace_window_def normalise_message_def page_has_more_def example_defs
      plain_def)

subsection \<open>The flag \<open>hasMoreMessages\<close>\<close>

lemma process_line_hasMore:
  "hasMoreMessages (fst (fst (process_line parse t l))) = hasMoreMessages (fst t)"
  by (cases t)
     (auto simp: process_line_def try_block_def catch_block_def first_token_def on_token_def
        on_tool_start_def on_tool_end_def on_source_def on_title_update_def on_error_def
        Let_def
        split: option.splits json.splits tried.splits if_splits)

lemma for_lines_hasMore:
  "hasMoreMessages (fst (for_lines parse t ls)) = hasMoreMessages (fst t)"
proof (induction ls arbitrary: t)
  case Nil
  then show ?case by simp
next
  case (Cons l ls)
  obtain t' f where p: "process_line parse t l = (t', f)"
    by (cases "process_line parse t l")
  then have "hasMoreMessages (fst t') = hasMoreMessages (fst t)"
    using process_line_hasMore [of parse t l] by simp
  with p Cons.IH [of t'] show ?case
    by (cases f) simp_all
qed

lemma on_chunk_hasMore:
  "hasMoreMessages (fst (on_chunk parse t chunk)) = hasMoreMessages (fst t)"
  by (cases t) (simp add: on_chunk_def Let_def for_lines_hasMore)

lemma do_step_keeps_false:
  "brings_no_page st \<Longrightarrow> \<not> hasMoreMessages (fst t) \<Longrightarrow>
     \<not> hasMoreMessages (fst (do_step parse encode t st))"
proof (cases t)
  case (Pair s v)
  assume "brings_no_page st" and "\<not> hasMoreMessages (fst t)"
  with Pair show ?thesis
  proof (cases st)
    case (Stream_chunk chunk)
    with Pair \<open>\<not> hasMoreMessages (fst t)\<close> show ?thesis
      using on_chunk_hasMore [of parse "(s, v)" chunk] by simp
  next
    case (Load_more_response r)
    with Pair \<open>brings_no_page st\<close> \<open>\<not> hasMoreMessages (fst t)\<close> show ?thesis
      by (cases r) (simp_all add: loadMoreMessages_done_def)
  next
    case (Refresh_response fc r)
    with Pair \<open>brings_no_page st\<close> \<open>\<not> hasMoreMessages (fst t)\<close> show ?thesis
      by (cases r) (simp_all add: refresh_done_def replace_window_def split: option.splits)
  next
    case (First_page_response r)
    with Pair \<open>brings_no_page st\<close> \<open>\<not> hasMoreMessages (fst t)\<close> show ?thesis
      by (cases r) (simp_all add: setActiveChat_done_def replace_window_def)
  qed (simp_all add: loadMoreMessages_call_def sendMessage_start_def stream_closed_def
        send_failed_def response_not_ok_def no_body_def Let_def split: option.splits)
qed

lemma run_steps_keeps_false:
  "\<forall>st\<in>set steps. brings_no_page st \<Longrightarrow> \<not> hasMoreMessages (fst t) \<Longrightarrow>
     \<not> hasMoreMessages (fst (run_steps parse encode steps t))"
  unfolding run_steps_def
  by (induction steps arbitrary: t) (simp_all add: do_step_keeps_false)

lemma load_more_noop: "\<not> hasMoreMessages s \<Longrightarrow> loadMoreMessages_call encode s = (s, None)"
  by (simp add: loadMoreMessages_call_def split: option.splits)

text \<open>
  C2, as the code has it. While \<open>hasMoreMessages\<close> is false a pagination trigger is a
  no-op that sends no request, and the flag stays false under every sequence of steps
  that bring no page with them: pagination triggers, failed or empty pagination
  responses, the start of a send, the chunks and the end of its stream, a send that
  fails, a refresh or a first page that fails. A pagination fetch that returns zero
  messages sets it to false, whatever \<open>has_more\<close> says, and it then stays false under
  such steps.
\<close>

theorem hasMore_stays_false_without_a_page:
  assumes "\<forall>st\<in>set steps. brings_no_page st"
  shows "(\<not> hasMoreMessages s \<longrightarrow>
            loadMoreMessages_call encode s = (s, None)
          \<and> \<not> hasMoreMessages (fst (run_steps parse encode steps (s, v))))
       \<and> (page_messages p = [] \<longrightarrow>
            \<not> hasMoreMessages
               (fst (run_steps parse encode (Load_more_response (Ok p) # steps) (s, v))))"
proof (intro conjI impI)
  assume "\<not> hasMoreMessages s"
  then show "loadMoreMessages_call encode s = (s, None)" by (rule load_more_noop)
  from \<open>\<not> hasMoreMessages s\<close> show "\<not> hasMoreMessages (fst (run_steps parse encode steps (s, v)))"
    using run_steps_keeps_false [OF assms, of "(s, v)"] by simp
next
  assume e: "page_messages p = []"
  have "\<not> hasMoreMessages (fst (do_step parse encode (s, v) (Load_more_response (Ok p))))"
    using e by (simp add: loadMoreMessages_done_def)
  then show "\<not> hasMoreMessages
      (fst (run_steps parse encode (Load_more_response (Ok p) # steps) (s, v)))"
    using run_steps_keeps_false [OF assms] by (simp add: run_steps_def)
qed

text \<open>
  C2 as the claim states it fails at the refresh after a turn: a pagination fetch has
  returned zero messages and the flag is false; the user sends a message, the stream
  ends, and the response of the refresh says \<open>has_more\<close>. The flag is true again, in the
  same session.
\<close>

theorem refresh_sets_hasMore_again:
  \<open>\<not> hasMoreMessages (fst (run_steps example_parse plain
        [Load_more, Load_more_response (Ok \<lparr>page_messages = [], has_more = None\<rparr>)]
        (chat_A, initial_vars)))
   \<and> hasMoreMessages (fst (run_steps example_parse plain
        [Load_more, Load_more_response (Ok \<lparr>page_messages = [], has_more = None\<rparr>),
         Send_start ''hi'' [] ''1'' ''t1'',
         Stream_chunk (''data: {"type":"done"}'' @ nl),
         Stream_end ''2'' ''t2'',
         Refresh_response (Some ''A'') (Ok \<lparr>page_messages = [m2, m3], has_more = Some True\<rparr>)]
        (chat_A, initial_vars)))
   \<and> activeChatId (fst (run_steps example_parse plain
        [Load_more, Load_more_response (Ok \<lparr>page_messages = [], has_more = None\<rparr>),
         Send_start ''hi'' [] ''1'' ''t1'',
         Stream_chunk (''data: {"type":"done"}'' @ nl),
         Stream_end ''2'' ''t2'',
         Refresh_response (Some ''A'') (Ok \<lparr>page_messages = [m2, m3], has_more = Some True\<rparr>)]
        (chat_A, initial_vars))) = Some ''A''\<close>
  by (simp add: run_steps_def loadMoreMessages_call_def loadMoreMessages_done_def
      refresh_done_def replace_window_def normalise_message_def page_has_more_def
      run_defs decode_defs example_parse_def process_line_def try_block_def example_defs)


theorem hasMore_stays_false_without_a_page_witness:
  \<open>loadMoreMessages_call plain (chat_A\<lparr>hasMoreMessages := False\<rparr>) =
      (chat_A\<lparr>hasMoreMessages := False\<rparr>, None)
   \<and> \<not> hasMoreMessages (fst (run_steps example_parse plain
        [Load_more, Send_start ''hi'' [] ''1'' ''t1'',
         Stream_chunk (''data: {"type":"done"}'' @ nl), Stream_end ''2'' ''t2'',
         Refresh_response (Some ''A'') Failed, Load_more]
        (chat_A\<lparr>hasMoreMessages := False\<rparr>, initial_vars)))
   \<and> \<not> hasMoreMessages (fst (run_steps example_parse plain
        [Load_more_response (Ok \<lparr>page_messages = [], has_more = Some True\<rparr>),
         Load_more, Send_start ''hi'' [] ''1'' ''t1'',
         Stream_chunk (''data: {"type":"done"}'' @ nl), Stream_end ''2'' ''t2'',
         Refresh_response (Some ''A'') Failed, Load_more]
        (chat_A\<lparr>hasMoreMessages := False\<rparr>, initial_vars)))\<close>
  using hasMore_stays_false_without_a_page
    [where steps = \<open>[Load_more, Send_start ''hi'' [] ''1'' ''t1'',
         Stream_chunk (''data: {"type":"done"}'' @ nl), Stream_end ''2'' ''t2'',
         Refresh_response (Some ''A'') Failed, Load_more]\<close>
       and s = "chat_A\<lparr>hasMoreMessages := False\<rparr>" and v = initial_vars
       and p = "\<lparr>page_messages = [], has_more = Some True\<rparr>"
       and parse = example_parse and encode = plain]
  by simp

end
